theory Spec2Isabelle
  imports Main
begin

section \<open>Marks, cells and the squares array\<close>

text \<open>
  The two player symbols, the strings "X" and "O" of the source. (The name \<open>O\<close> alone is
  the relation composition of HOL, hence the suffix.)
\<close>

datatype mark = X_mark | O_mark

text \<open>
  What reading \<open>squares[i]\<close> can yield: \<open>undefined\<close> when the array has no property under
  that key (a hole, or a key past the end), \<open>null\<close>, or one of the two marks.
\<close>

datatype cell = Absent | Null | Mark mark

text \<open>
  A JavaScript array of cells. \<open>elems\<close> are the elements under the array indices
  \<open>0 .. length - 1\<close>, where \<open>Absent\<close> stands for a hole; \<open>props\<close> are the own properties
  under integer keys that are not array indices (negative numbers, and numbers from
  \<open>2^32 - 1\<close> on), most recent first. The index of a click is an integer-valued number.
\<close>

record board =
  elems :: "cell list"
  props :: "(int \<times> cell) list"

definition is_index :: "int \<Rightarrow> bool" where
  "is_index i = (0 \<le> i \<and> i < 4294967295)"

text \<open>\<open>squares[i]\<close> as an expression: reading never fails, a missing key reads \<open>undefined\<close>.\<close>

definition sq_get :: "board \<Rightarrow> int \<Rightarrow> cell" where
  "sq_get sq i =
     (if is_index i
      then (if nat i < length (elems sq) then elems sq ! nat i else Absent)
      else (case map_of (props sq) i of None \<Rightarrow> Absent | Some c \<Rightarrow> c))"

text \<open>
  \<open>squares[i] = v\<close>: an index inside the array overwrites the element, an index past the
  end extends the array and leaves holes in between, any other key becomes a property.
\<close>

definition sq_set :: "board \<Rightarrow> int \<Rightarrow> cell \<Rightarrow> board" where
  "sq_set sq i v =
     (if is_index i
      then (if nat i < length (elems sq)
            then sq\<lparr>elems := (elems sq)[nat i := v]\<rparr>
            else sq\<lparr>elems := elems sq @ replicate (nat i - length (elems sq)) Absent @ [v]\<rparr>)
      else sq\<lparr>props := (i, v) # props sq\<rparr>)"

text \<open>\<open>squares.slice()\<close> copies the elements (holes included) and no other property.\<close>

definition slice :: "board \<Rightarrow> board" where
  "slice sq = \<lparr>elems = elems sq, props = []\<rparr>"

text \<open>\<open>Array(n).fill(v)\<close>.\<close>

definition Array_fill :: "nat \<Rightarrow> cell \<Rightarrow> board" where
  "Array_fill n v = \<lparr>elems = replicate n v, props = []\<rparr>"

text \<open>Truthiness: \<open>undefined\<close> and \<open>null\<close> are falsy, the non-empty strings "X" and "O" truthy.\<close>

fun truthy :: "cell \<Rightarrow> bool" where
  "truthy (Mark m) = True"
| "truthy Absent = False"
| "truthy Null = False"

text \<open>\<open>squares.every(Boolean)\<close>: the callback is not called on holes.\<close>

definition every_Boolean :: "board \<Rightarrow> bool" where
  "every_Boolean sq = list_all (\<lambda>c. c = Absent \<or> truthy c) (elems sq)"

section \<open>calculateWinner\<close>

definition lines :: "(int \<times> int \<times> int) list" where
  "lines = [(0, 1, 2), (3, 4, 5), (6, 7, 8),
            (0, 3, 6), (1, 4, 7), (2, 5, 8),
            (0, 4, 8), (2, 4, 6)]"

text \<open>The \<open>for (let line of lines)\<close> loop: the first line that passes the test returns.\<close>

fun scan_lines :: "board \<Rightarrow> (int \<times> int \<times> int) list \<Rightarrow> cell" where
  "scan_lines sq [] = Null"
| "scan_lines sq ((a, b, c) # ls) =
     (if truthy (sq_get sq a) \<and> sq_get sq a = sq_get sq b \<and> sq_get sq a = sq_get sq c
      then sq_get sq a
      else scan_lines sq ls)"

definition calculateWinner :: "board \<Rightarrow> cell" where
  "calculateWinner sq = scan_lines sq lines"

section \<open>The Game component's state and handlers\<close>

record game =
  squares :: board
  isXNext :: bool
  theme :: string
  themeDialogOpen :: bool

text \<open>The state of the first render; the theme comes from \<open>getInitialTheme\<close>.\<close>

definition Game_init :: "string \<Rightarrow> game" where
  "Game_init t =
     \<lparr>squares = Array_fill 9 Null, isXNext = True, theme = t, themeDialogOpen = False\<rparr>"

definition handleClick :: "game \<Rightarrow> int \<Rightarrow> game" where
  "handleClick g i =
     (if truthy (sq_get (squares g) i) \<or> truthy (calculateWinner (squares g)) then g
      else g\<lparr>squares := sq_set (slice (squares g)) i (Mark (if isXNext g then X_mark else O_mark)),
             isXNext := \<not> isXNext g\<rparr>)"

definition restartGame :: "game \<Rightarrow> game" where
  "restartGame g = g\<lparr>squares := Array_fill 9 Null, isXNext := True\<rparr>"

definition selectTheme :: "game \<Rightarrow> string \<Rightarrow> game" where
  "selectTheme g t = g\<lparr>theme := t, themeDialogOpen := False\<rparr>"

definition setThemeDialogOpen :: "game \<Rightarrow> bool \<Rightarrow> game" where
  "setThemeDialogOpen g b = g\<lparr>themeDialogOpen := b\<rparr>"

text \<open>The values derived at each render: \<open>winner\<close> and \<open>isDraw\<close>; \<open>outcome_of\<close> is the case
  the \<open>status\<close> text distinguishes (a winner first, then a draw, then the next player).\<close>

definition winner :: "game \<Rightarrow> cell" where
  "winner g = calculateWinner (squares g)"

definition isDraw :: "game \<Rightarrow> bool" where
  "isDraw g = (every_Boolean (squares g) \<and> \<not> truthy (winner g))"

datatype outcome = InProgress | Win mark | Draw

definition outcome_of :: "board \<Rightarrow> outcome" where
  "outcome_of sq =
     (case calculateWinner sq of
        Mark m \<Rightarrow> Win m
      | _ \<Rightarrow> if every_Boolean sq then Draw else InProgress)"

section \<open>Events of the page\<close>

text \<open>
  The handlers the rendered tree installs: a click on a square, the two restart buttons,
  a theme button, the settings button and the dialog's close and cancel.
\<close>

datatype event = Click int | Restart | SelectTheme string | OpenSettings | CloseDialog

fun step :: "game \<Rightarrow> event \<Rightarrow> game" where
  "step g (Click i) = handleClick g i"
| "step g Restart = restartGame g"
| "step g (SelectTheme t) = selectTheme g t"
| "step g OpenSettings = setThemeDialogOpen g True"
| "step g CloseDialog = setThemeDialogOpen g False"

definition run :: "game \<Rightarrow> event list \<Rightarrow> game" where
  "run g es = foldl step g es"

text \<open>
  The Board component renders, for each row of \<open>[0, 1, 2]\<close>, the squares \<open>row * 3\<close>,
  \<open>row * 3 + 1\<close> and \<open>row * 3 + 2\<close>; these are the indices its clicks pass on.
\<close>

definition board_indices :: "int list" where
  "board_indices = concat (map (\<lambda>row. [row * 3, row * 3 + 1, row * 3 + 2]) [0, 1, 2])"

fun ui_event :: "event \<Rightarrow> bool" where
  "ui_event (Click i) = (i \<in> set board_indices)"
| "ui_event _ = True"

section \<open>The initial theme\<close>

definition THEMES :: "string list" where
  "THEMES = [''light'', ''dark'', ''ocean'', ''forest'', ''sunset'', ''lavender'']"

text \<open>
  What the environment answers: \<open>localStorage.getItem("theme")\<close> returns a string or
  \<open>null\<close>, or throws where storage is blocked (the call stands outside the \<open>try\<close>);
  \<open>window.matchMedia\<close> may be missing, may throw (caught), or reports \<open>matches\<close>.
\<close>

datatype storage = Blocked | Item "string option"

datatype media = NoMatchMedia | MediaThrows | MediaMatches bool

datatype error = StorageError

definition system_theme :: "media \<Rightarrow> string" where
  "system_theme mm = (case mm of MediaMatches True \<Rightarrow> ''dark'' | _ \<Rightarrow> ''light'')"

definition getInitialTheme :: "storage \<Rightarrow> media \<Rightarrow> error + string" where
  "getInitialTheme st mm =
     (case st of
        Blocked \<Rightarrow> Inl StorageError
      | Item None \<Rightarrow> Inr (system_theme mm)
      | Item (Some stored) \<Rightarrow>
          if stored \<noteq> [] \<and> stored \<in> set THEMES then Inr stored
          else Inr (system_theme mm))"

section \<open>Notions of the specification\<close>

text \<open>
  A board of the data model: nine cells, each empty or marked, and nothing else on the
  array.
\<close>

definition nine_cells :: "board \<Rightarrow> bool" where
  "nine_cells sq =
     (length (elems sq) = 9 \<and> list_all (\<lambda>c. c \<noteq> Absent) (elems sq) \<and> props sq = [])"

text \<open>A win line whose three cells all hold the mark \<open>m\<close>.\<close>

fun line_holds :: "board \<Rightarrow> mark \<Rightarrow> int \<times> int \<times> int \<Rightarrow> bool" where
  "line_holds sq m (a, b, c) =
     (sq_get sq a = Mark m \<and> sq_get sq b = Mark m \<and> sq_get sq c = Mark m)"

definition complete :: "board \<Rightarrow> int \<times> int \<times> int \<Rightarrow> bool" where
  "complete sq l = (line_holds sq X_mark l \<or> line_holds sq O_mark l)"

definition has_line :: "board \<Rightarrow> mark \<Rightarrow> bool" where
  "has_line sq m = list_ex (line_holds sq m) lines"

definition occupied :: "board \<Rightarrow> int \<Rightarrow> bool" where
  "occupied sq i = (\<exists>m. sq_get sq i = Mark m)"

definition count_mark :: "board \<Rightarrow> mark \<Rightarrow> nat" where
  "count_mark sq m = count_list (elems sq) (Mark m)"

definition turn :: "game \<Rightarrow> mark" where
  "turn g = (if isXNext g then X_mark else O_mark)"

text \<open>At most one of the two marks has a completed win line.\<close>

definition one_winner :: "game \<Rightarrow> bool" where
  "one_winner g = (\<not> (has_line (squares g) X_mark \<and> has_line (squares g) O_mark))"

text \<open>
  The marks on a board of nine cells are level when the X mark moves next, and the X mark
  is one ahead when the O mark moves next.
\<close>

definition balanced :: "game \<Rightarrow> bool" where
  "balanced g =
     (nine_cells (squares g) \<and>
      int (count_mark (squares g) X_mark) - int (count_mark (squares g) O_mark) =
        (if isXNext g then 0 else 1))"

section \<open>Auxiliary facts\<close>

lemma truthy_iff: "truthy c \<longleftrightarrow> (\<exists>m. c = Mark m)"
  by (cases c) auto

lemma pass_iff: "(truthy (sq_get sq a) \<and> sq_get sq a = sq_get sq b \<and> sq_get sq a = sq_get sq c) \<longleftrightarrow> complete sq (a, b, c)"
proof (cases "sq_get sq a")
  case (Mark m)
  then show ?thesis by (cases m) (auto simp: complete_def)
qed (auto simp: complete_def)

lemma scan_Cons:
  "scan_lines sq ((a, b, c) # ls) = (if complete sq (a, b, c) then sq_get sq a else scan_lines sq ls)"
  using pass_iff[of sq a b c] by simp

lemma complete_truthy: "complete sq (a, b, c) \<Longrightarrow> truthy (sq_get sq a)"
  using pass_iff[of sq a b c] by blast

lemma scan_cases: "scan_lines sq ls = Null \<or> (\<exists>m. scan_lines sq ls = Mark m)"
proof (induction ls)
  case Nil
  show ?case by simp
next
  case (Cons l ls)
  obtain a b c where l: "l = (a, b, c)" by (cases l)
  show ?case
    using Cons complete_truthy[of sq a b c] unfolding l scan_Cons
    by (auto simp: truthy_iff)
qed

lemma scan_Null_iff: "scan_lines sq ls = Null \<longleftrightarrow> \<not> list_ex (complete sq) ls"
proof (induction ls)
  case Nil
  show ?case by simp
next
  case (Cons l ls)
  obtain a b c where l: "l = (a, b, c)" by (cases l)
  show ?case
    using Cons complete_truthy[of sq a b c] unfolding l scan_Cons
    by (auto simp: truthy_iff)
qed

lemma scan_first:
  "k < length ls \<Longrightarrow> complete sq (ls ! k) \<Longrightarrow> (\<forall>j<k. \<not> complete sq (ls ! j)) \<Longrightarrow>
   scan_lines sq ls = sq_get sq (fst (ls ! k))"
proof (induction ls arbitrary: k)
  case Nil
  then show ?case by simp
next
  case (Cons l ls)
  obtain a b c where l: "l = (a, b, c)" by (cases l)
  show ?case
  proof (cases k)
    case 0
    with Cons.prems show ?thesis unfolding l scan_Cons by simp
  next
    case (Suc n)
    from Cons.prems(3) Suc have nc: "\<not> complete sq (a, b, c)" unfolding l by auto
    have "\<forall>j<n. \<not> complete sq (ls ! j)"
      using Cons.prems(3) Suc by auto
    then have "scan_lines sq ls = sq_get sq (fst (ls ! n))"
      using Cons.IH[of n] Cons.prems(1,2) Suc by simp
    with nc Suc show ?thesis unfolding l scan_Cons by simp
  qed
qed

lemma calculateWinner_truthy: "truthy (calculateWinner sq) \<longleftrightarrow> list_ex (complete sq) lines"
  using scan_Null_iff[of sq lines] scan_cases[of sq lines]
  by (auto simp: calculateWinner_def)

lemma list_ex_complete: "list_ex (complete sq) ls \<longleftrightarrow> list_ex (line_holds sq X_mark) ls \<or> list_ex (line_holds sq O_mark) ls"
  by (induction ls) (auto simp: complete_def)

lemma winner_has_line: "truthy (calculateWinner sq) \<longleftrightarrow> has_line sq X_mark \<or> has_line sq O_mark"
  by (simp add: calculateWinner_truthy list_ex_complete has_line_def)

lemma sq_get_set:
  "is_index j \<Longrightarrow> sq_get (sq_set (slice sq) i v) j = (if j = i then v else sq_get sq j)"
  by (auto simp: sq_get_def sq_set_def slice_def nth_append is_index_def nat_eq_iff nth_list_update)

lemma lines_index: "(a, b, c) \<in> set lines \<Longrightarrow> is_index a \<and> is_index b \<and> is_index c"
  by (auto simp: lines_def is_index_def)

lemma line_holds_after:
  assumes "l \<in> set lines" "m' \<noteq> m" "line_holds (sq_set (slice sq) i (Mark m)) m' l"
  shows "line_holds sq m' l"
proof -
  obtain a b c where l: "l = (a, b, c)" by (cases l)
  with assms(1) have "is_index a" "is_index b" "is_index c" using lines_index by auto
  with assms(2,3) show ?thesis unfolding l
    by (auto simp: sq_get_set split: if_splits)
qed

lemma has_line_after:
  "m' \<noteq> m \<Longrightarrow> has_line (sq_set (slice sq) i (Mark m)) m' \<Longrightarrow> has_line sq m'"
  unfolding has_line_def list_ex_iff using line_holds_after by blast

lemma handleClick_one_winner: "one_winner g \<Longrightarrow> one_winner (handleClick g i)"
proof (cases "truthy (sq_get (squares g) i) \<or> truthy (calculateWinner (squares g))")
  case True
  assume "one_winner g"
  with True show ?thesis by (simp add: handleClick_def)
next
  case False
  then have no: "\<not> has_line (squares g) X_mark" "\<not> has_line (squares g) O_mark"
    by (simp_all add: winner_has_line)
  show ?thesis
  proof (cases "isXNext g")
    case True
    have "\<not> has_line (sq_set (slice (squares g)) i (Mark X_mark)) O_mark"
      using has_line_after[of O_mark X_mark "squares g" i] no by auto
    with False True show ?thesis by (simp add: handleClick_def one_winner_def)
  next
    case nx: False
    have "\<not> has_line (sq_set (slice (squares g)) i (Mark O_mark)) X_mark"
      using has_line_after[of X_mark O_mark "squares g" i] no by auto
    with False nx show ?thesis by (simp add: handleClick_def one_winner_def)
  qed
qed

lemma step_one_winner: "one_winner g \<Longrightarrow> one_winner (step g e)"
proof (cases e)
  case (Click i)
  assume "one_winner g"
  then show ?thesis using Click handleClick_one_winner by simp
next
  case Restart
  show ?thesis unfolding Restart
    by (simp add: one_winner_def restartGame_def has_line_def lines_def Array_fill_def sq_get_def is_index_def)
qed (simp_all add: one_winner_def selectTheme_def setThemeDialogOpen_def)

lemma run_one_winner: "one_winner g \<Longrightarrow> one_winner (run g es)"
  unfolding run_def by (induction es arbitrary: g) (simp_all add: step_one_winner)

lemma init_one_winner: "one_winner (Game_init t)"
  by (simp add: one_winner_def Game_init_def has_line_def lines_def Array_fill_def sq_get_def is_index_def)

lemma Array_fill_9: "Array_fill 9 v = \<lparr>elems = [v, v, v, v, v, v, v, v, v], props = []\<rparr>"
  by (simp add: Array_fill_def eval_nat_numeral)

lemma board_indices_eq: "board_indices = [0, 1, 2, 3, 4, 5, 6, 7, 8]"
  by (simp add: board_indices_def)

lemma board_indices_iff: "i \<in> set board_indices \<longleftrightarrow> 0 \<le> i \<and> i < 9"
  unfolding board_indices_eq by auto

lemma nine_cells_get:
  "nine_cells sq \<Longrightarrow> 0 \<le> i \<Longrightarrow> i < 9 \<Longrightarrow> sq_get sq i = elems sq ! nat i \<and> sq_get sq i \<noteq> Absent"
  by (auto simp: nine_cells_def sq_get_def is_index_def list_all_length)

lemma every_Boolean_nine:
  "nine_cells sq \<Longrightarrow> every_Boolean sq \<longleftrightarrow> (\<forall>i\<in>set board_indices. occupied sq i)"
proof
  assume n: "nine_cells sq" and e: "every_Boolean sq"
  show "\<forall>i\<in>set board_indices. occupied sq i"
  proof
    fix i assume "i \<in> set board_indices"
    then have i: "0 \<le> i" "i < 9" by (simp_all add: board_indices_iff)
    then have "nat i < length (elems sq)" using n by (simp add: nine_cells_def)
    then have "elems sq ! nat i = Absent \<or> truthy (elems sq ! nat i)"
      using e by (simp add: every_Boolean_def list_all_length)
    then show "occupied sq i"
      using nine_cells_get[OF n i] by (auto simp: occupied_def truthy_iff)
  qed
next
  assume n: "nine_cells sq" and o: "\<forall>i\<in>set board_indices. occupied sq i"
  have "truthy (elems sq ! k)" if "k < length (elems sq)" for k
  proof -
    from that n have k: "0 \<le> int k" "int k < 9" by (simp_all add: nine_cells_def)
    then have "occupied sq (int k)" using o by (simp add: board_indices_iff)
    then show ?thesis using nine_cells_get[OF n k] by (auto simp: occupied_def)
  qed
  then show "every_Boolean sq" by (simp add: every_Boolean_def list_all_length)
qed

lemma outcome_Win_iff: "outcome_of sq = Win m \<longleftrightarrow> calculateWinner sq = Mark m"
  by (simp add: outcome_of_def split: cell.splits)

lemma outcome_Draw_iff: "outcome_of sq = Draw \<longleftrightarrow> \<not> truthy (calculateWinner sq) \<and> every_Boolean sq"
  by (simp add: outcome_of_def split: cell.splits)

lemma outcome_InProgress_iff:
  "outcome_of sq = InProgress \<longleftrightarrow> \<not> truthy (calculateWinner sq) \<and> \<not> every_Boolean sq"
  by (simp add: outcome_of_def split: cell.splits)

lemma scan_line_holds: "scan_lines sq ls = Mark m \<Longrightarrow> list_ex (line_holds sq m) ls"
proof (induction ls)
  case Nil
  then show ?case by simp
next
  case (Cons l ls)
  obtain a b c where l: "l = (a, b, c)" by (cases l)
  show ?case
  proof (cases "complete sq (a, b, c)")
    case True
    with Cons.prems have "sq_get sq a = Mark m" unfolding l scan_Cons by simp
    with True show ?thesis unfolding l by (cases m) (auto simp: complete_def)
  next
    case False
    with Cons show ?thesis unfolding l scan_Cons by simp
  qed
qed

lemma winner_line: "calculateWinner sq = Mark m \<Longrightarrow> has_line sq m"
  unfolding calculateWinner_def has_line_def by (rule scan_line_holds)

lemma handleClick_rejected:
  "truthy (sq_get (squares g) i) \<or> truthy (calculateWinner (squares g)) \<Longrightarrow> handleClick g i = g"
  by (simp add: handleClick_def)

lemma handleClick_draw:
  assumes "nine_cells (squares g)" "outcome_of (squares g) = Draw" "0 \<le> i" "i < 9"
  shows "handleClick g i = g"
proof -
  from assms(2) have "every_Boolean (squares g)" by (simp add: outcome_Draw_iff)
  then have "occupied (squares g) i"
    using every_Boolean_nine[OF assms(1)] assms(3,4) by (simp add: board_indices_iff)
  then show ?thesis by (auto simp: occupied_def intro: handleClick_rejected)
qed

lemma turn_flip: "handleClick g i \<noteq> g \<Longrightarrow> turn (handleClick g i) \<noteq> turn g"
  by (auto simp: handleClick_def turn_def split: if_splits)

lemma only_line_wins:
  assumes "has_line sq m" "\<forall>m'. m' \<noteq> m \<longrightarrow> \<not> has_line sq m'"
  shows "calculateWinner sq = Mark m"
proof -
  from assms(1) have "truthy (calculateWinner sq)"
    by (cases m) (simp_all add: winner_has_line)
  then obtain m' where w: "calculateWinner sq = Mark m'" by (auto simp: truthy_iff)
  then have "has_line sq m'" by (rule winner_line)
  with assms(2) have "m' = m" by blast
  with w show ?thesis by simp
qed

lemma count_list_update:
  "k < length xs \<Longrightarrow> xs ! k = Null \<Longrightarrow>
   count_list (xs[k := Mark m]) (Mark m') = count_list xs (Mark m') + (if m = m' then 1 else 0)"
proof (induction xs arbitrary: k)
  case Nil
  then show ?case by simp
next
  case (Cons x xs)
  show ?case
  proof (cases k)
    case 0
    with Cons.prems show ?thesis by auto
  next
    case (Suc n)
    with Cons.prems have "n < length xs" "xs ! n = Null" by simp_all
    then show ?thesis using Cons.IH[of n] Suc by simp
  qed
qed

lemma nine_cells_Null:
  assumes "nine_cells sq" "0 \<le> i" "i < 9" "\<not> truthy (sq_get sq i)"
  shows "elems sq ! nat i = Null"
proof -
  from nine_cells_get[OF assms(1-3)] assms(4)
  have "elems sq ! nat i \<noteq> Absent" "\<not> truthy (elems sq ! nat i)" by auto
  then show ?thesis by (cases "elems sq ! nat i") auto
qed

lemma handleClick_balanced:
  assumes "balanced g" "0 \<le> i" "i < 9"
  shows "balanced (handleClick g i)"
proof (cases "truthy (sq_get (squares g) i) \<or> truthy (calculateWinner (squares g))")
  case True
  with assms(1) show ?thesis by (simp add: handleClick_def)
next
  case False
  from assms(1) have n: "nine_cells (squares g)" by (simp add: balanced_def)
  have idx: "is_index i" "nat i < length (elems (squares g))"
    using n assms(2,3) by (simp_all add: is_index_def nine_cells_def)
  have nl: "elems (squares g) ! nat i = Null"
    using nine_cells_Null[OF n assms(2,3)] False by simp
  have sl: "slice (squares g) = squares g" using n by (simp add: slice_def nine_cells_def)
  let ?m = "if isXNext g then X_mark else O_mark"
  have eq: "handleClick g i =
     g\<lparr>squares := (squares g)\<lparr>elems := (elems (squares g))[nat i := Mark ?m]\<rparr>,
       isXNext := \<not> isXNext g\<rparr>"
    using False idx by (simp add: handleClick_def sl sq_set_def)
  have n': "nine_cells (squares (handleClick g i))"
    unfolding eq using n idx by (auto simp: nine_cells_def list_all_length nth_list_update)
  have cnt: "count_mark (squares (handleClick g i)) m' =
        count_mark (squares g) m' + (if ?m = m' then 1 else 0)" for m'
    unfolding eq count_mark_def using count_list_update[OF idx(2) nl, of ?m m'] by simp
  have nx: "isXNext (handleClick g i) = (\<not> isXNext g)" unfolding eq by simp
  show ?thesis
    using assms(1) n' unfolding balanced_def cnt nx by (cases "isXNext g") simp_all
qed

lemma init_balanced: "balanced (Game_init t)"
  by (simp add: balanced_def Game_init_def Array_fill_9 nine_cells_def count_mark_def)

lemma step_balanced: "balanced g \<Longrightarrow> ui_event e \<Longrightarrow> balanced (step g e)"
proof (cases e)
  case (Click i)
  assume "balanced g" "ui_event e"
  then show ?thesis using Click handleClick_balanced[of g i] by (simp add: board_indices_iff)
next
  case Restart
  show ?thesis unfolding Restart
    by (simp add: balanced_def restartGame_def Array_fill_9 nine_cells_def count_mark_def)
qed (simp_all add: balanced_def selectTheme_def setThemeDialogOpen_def)

lemma run_balanced: "balanced g \<Longrightarrow> list_all ui_event es \<Longrightarrow> balanced (run g es)"
  unfolding run_def by (induction es arbitrary: g) (simp_all add: step_balanced)

lemma run_Cons: "run g (e # es) = run (step g e) es"
  by (simp add: run_def)

lemma run_Nil: "run g [] = g"
  by (simp add: run_def)

lemmas click_eval = handleClick_def calculateWinner_def lines_def sq_get_def sq_set_def slice_def is_index_def

lemma win_game:
  "run (Game_init ''light'') [Click 0, Click 4, Click 1, Click 5, Click 2] =
   \<lparr>squares = \<lparr>elems = [Mark X_mark, Mark X_mark, Mark X_mark, Null, Mark O_mark, Mark O_mark,
                         Null, Null, Null], props = []\<rparr>,
     isXNext = False, theme = ''light'', themeDialogOpen = False\<rparr>"
  by (simp add: run_Cons run_Nil Game_init_def Array_fill_9 click_eval)

lemma drawn_game:
  "run (Game_init ''light'')
     [Click 0, Click 1, Click 2, Click 4, Click 3, Click 5, Click 7, Click 6, Click 8] =
   \<lparr>squares = \<lparr>elems = [Mark X_mark, Mark O_mark, Mark X_mark, Mark X_mark, Mark O_mark,
                         Mark O_mark, Mark O_mark, Mark X_mark, Mark X_mark], props = []\<rparr>,
     isXNext = False, theme = ''light'', themeDialogOpen = False\<rparr>"
  by (simp add: run_Cons run_Nil Game_init_def Array_fill_9 click_eval)

section \<open>Rejected and accepted moves\<close>

theorem applyMove_out_of_range_counterexample:
  "\<not> (0 \<le> (9::int) \<and> (9::int) < 9) \<and>
   handleClick (Game_init ''light'') 9 \<noteq> Game_init ''light'' \<and>
   handleClick (Game_init ''light'') 9 =
     \<lparr>squares = \<lparr>elems = [Null, Null, Null, Null, Null, Null, Null, Null, Null, Mark X_mark],
                  props = []\<rparr>,
      isXNext = False, theme = ''light'', themeDialogOpen = False\<rparr>"
  by (simp add: handleClick_def Game_init_def Array_fill_9 calculateWinner_def lines_def
      sq_get_def sq_set_def slice_def is_index_def)

text \<open>
  Claim C1, as the code has it. A click is rejected, and the whole state is returned as
  it was, whenever the cell under the index already holds a mark or a win line is
  complete, for every index inside or outside 0 to 8; on a drawn board of nine cells
  every index from 0 to 8 is rejected, its cell being occupied. No test on the range of
  the index exists: the counterexample is the click at index 9 on the empty board, which
  is accepted, appends a tenth element and flips the turn.
\<close>

theorem applyMove_rejected:
  assumes "occupied (squares g) i \<or> (\<exists>m. outcome_of (squares g) = Win m) \<or>
           (nine_cells (squares g) \<and> outcome_of (squares g) = Draw \<and> 0 \<le> i \<and> i < 9)"
  shows "handleClick g i = g"
  using assms handleClick_draw[of g i]
  by (auto simp: occupied_def outcome_Win_iff handleClick_def)

theorem applyMove_rejected_witness:
  "occupied (squares (handleClick (Game_init ''light'') 0)) 0 \<and>
   handleClick (handleClick (Game_init ''light'') 0) 0 = handleClick (Game_init ''light'') 0"
proof -
  have occ: "occupied (squares (handleClick (Game_init ''light'') 0)) 0"
    by (simp add: occupied_def handleClick_def Game_init_def Array_fill_9 calculateWinner_def
        lines_def sq_get_def sq_set_def slice_def is_index_def)
  then show ?thesis
    using applyMove_rejected[of "handleClick (Game_init ''light'') 0" 0] by simp
qed

text \<open>
  Claim C2. On a board of nine cells that is still in progress, a click at an empty cell
  with index from 0 to 8 yields the same state except that the cell at the index holds
  the mark of the current turn and the turn is the other mark: every other key of the
  array reads as before, and nothing of the state outside the board and the turn changes.
  Whenever a click changes the state at all, the turn after it differs from the turn
  before it, so the turn alternates across consecutive successful clicks.
\<close>

theorem applyMove_legal:
  assumes "nine_cells (squares g)" "0 \<le> i" "i < 9" "sq_get (squares g) i = Null"
    "outcome_of (squares g) = InProgress"
  shows "handleClick g i =
           g\<lparr>squares := (squares g)\<lparr>elems := (elems (squares g))[nat i := Mark (turn g)]\<rparr>,
             isXNext := \<not> isXNext g\<rparr> \<and>
         sq_get (squares (handleClick g i)) i = Mark (turn g) \<and>
         (\<forall>j. j \<noteq> i \<longrightarrow> sq_get (squares (handleClick g i)) j = sq_get (squares g) j) \<and>
         nine_cells (squares (handleClick g i)) \<and>
         turn (handleClick g i) \<noteq> turn g \<and>
         (\<forall>h k. handleClick h k \<noteq> h \<longrightarrow> turn (handleClick h k) \<noteq> turn h)"
proof -
  from assms(5) have nw: "\<not> truthy (calculateWinner (squares g))"
    by (simp add: outcome_InProgress_iff)
  have idx: "is_index i" "nat i < length (elems (squares g))"
    using assms(1-3) by (simp_all add: is_index_def nine_cells_def)
  have pr: "props (squares g) = []" using assms(1) by (simp add: nine_cells_def)
  have sl: "slice (squares g) = squares g" using pr by (simp add: slice_def)
  have eq: "handleClick g i =
           g\<lparr>squares := (squares g)\<lparr>elems := (elems (squares g))[nat i := Mark (turn g)]\<rparr>,
             isXNext := \<not> isXNext g\<rparr>"
    using nw assms(4) idx by (simp add: handleClick_def sl sq_set_def turn_def)
  have g1: "sq_get (squares (handleClick g i)) i = Mark (turn g)"
    unfolding eq using idx by (simp add: sq_get_def)
  have g2: "\<forall>j. j \<noteq> i \<longrightarrow> sq_get (squares (handleClick g i)) j = sq_get (squares g) j"
    unfolding eq using idx by (auto simp: sq_get_def nat_eq_iff is_index_def)
  have g3: "nine_cells (squares (handleClick g i))"
    unfolding eq using assms(1) idx
    by (auto simp: nine_cells_def list_all_length nth_list_update)
  have g4: "turn (handleClick g i) \<noteq> turn g"
    unfolding eq by (simp add: turn_def)
  show ?thesis using eq g1 g2 g3 g4 turn_flip by blast
qed

theorem applyMove_legal_witness:
  "handleClick (Game_init ''light'') 4 =
     \<lparr>squares = \<lparr>elems = [Null, Null, Null, Null, Mark X_mark, Null, Null, Null, Null],
                  props = []\<rparr>,
      isXNext = False, theme = ''light'', themeDialogOpen = False\<rparr> \<and>
   turn (Game_init ''light'') = X_mark \<and>
   turn (handleClick (Game_init ''light'') 4) = O_mark"
proof -
  let ?g = "Game_init ''light''"
  have h: "nine_cells (squares ?g)" "(0::int) \<le> 4" "(4::int) < 9" "sq_get (squares ?g) 4 = Null"
    "outcome_of (squares ?g) = InProgress"
    by (simp_all add: Game_init_def Array_fill_9 nine_cells_def sq_get_def is_index_def
        outcome_of_def calculateWinner_def lines_def every_Boolean_def)
  have t: "turn ?g = X_mark" by (simp add: Game_init_def turn_def)
  note r = applyMove_legal[OF h]
  from r have e: "handleClick ?g 4 =
      ?g\<lparr>squares := (squares ?g)\<lparr>elems := (elems (squares ?g))[nat 4 := Mark (turn ?g)]\<rparr>,
        isXNext := \<not> isXNext ?g\<rparr>" by blast
  from r have "turn (handleClick ?g 4) \<noteq> turn ?g" by blast
  then have t': "turn (handleClick ?g 4) = O_mark" unfolding t by (cases "turn (handleClick ?g 4)") simp_all
  have "handleClick ?g 4 =
     \<lparr>squares = \<lparr>elems = [Null, Null, Null, Null, Mark X_mark, Null, Null, Null, Null],
                  props = []\<rparr>,
      isXNext = False, theme = ''light'', themeDialogOpen = False\<rparr>"
    unfolding e t by (simp add: Game_init_def Array_fill_9)
  with t t' show ?thesis by blast
qed

section \<open>The outcome of a board\<close>

text \<open>
  Claim C3. On a board of nine cells, the outcome is a win exactly when one of the eight
  win lines (listed in the last conjunct) is complete, that is, holds the same mark in
  its three cells; the mark of a win is the mark of a completed line, and it is the mark
  \<open>m\<close> whenever \<open>m\<close> is the only mark with a completed line. The outcome is a draw
  exactly when no line is complete and all nine cells are occupied, and in progress
  exactly when no line is complete and some cell is not occupied.
\<close>

theorem outcome_characterised:
  assumes "nine_cells sq"
  shows "(\<forall>m. outcome_of sq = Win m \<longrightarrow> list_ex (line_holds sq m) lines) \<and>
         ((\<exists>m. outcome_of sq = Win m) \<longleftrightarrow> list_ex (complete sq) lines) \<and>
         (\<forall>m. list_ex (line_holds sq m) lines \<and> (\<forall>m'. m' \<noteq> m \<longrightarrow> \<not> list_ex (line_holds sq m') lines)
              \<longrightarrow> outcome_of sq = Win m) \<and>
         (outcome_of sq = Draw \<longleftrightarrow>
            \<not> list_ex (complete sq) lines \<and> (\<forall>i\<in>set board_indices. occupied sq i)) \<and>
         (outcome_of sq = InProgress \<longleftrightarrow>
            \<not> list_ex (complete sq) lines \<and> \<not> (\<forall>i\<in>set board_indices. occupied sq i)) \<and>
         board_indices = [0, 1, 2, 3, 4, 5, 6, 7, 8] \<and>
         lines = [(0, 1, 2), (3, 4, 5), (6, 7, 8), (0, 3, 6), (1, 4, 7), (2, 5, 8),
                  (0, 4, 8), (2, 4, 6)]"
proof -
  have a: "\<forall>m. outcome_of sq = Win m \<longrightarrow> list_ex (line_holds sq m) lines"
    using winner_line[of sq] by (simp add: outcome_Win_iff has_line_def)
  have b: "(\<exists>m. outcome_of sq = Win m) \<longleftrightarrow> list_ex (complete sq) lines"
    using calculateWinner_truthy[of sq] by (simp add: outcome_Win_iff truthy_iff)
  have c: "\<forall>m. list_ex (line_holds sq m) lines \<and> (\<forall>m'. m' \<noteq> m \<longrightarrow> \<not> list_ex (line_holds sq m') lines)
              \<longrightarrow> outcome_of sq = Win m"
    using only_line_wins[of sq] by (simp add: outcome_Win_iff has_line_def)
  have d: "outcome_of sq = Draw \<longleftrightarrow>
            \<not> list_ex (complete sq) lines \<and> (\<forall>i\<in>set board_indices. occupied sq i)"
    using every_Boolean_nine[OF assms] by (simp add: outcome_Draw_iff calculateWinner_truthy)
  have e: "outcome_of sq = InProgress \<longleftrightarrow>
            \<not> list_ex (complete sq) lines \<and> \<not> (\<forall>i\<in>set board_indices. occupied sq i)"
    using every_Boolean_nine[OF assms] by (simp add: outcome_InProgress_iff calculateWinner_truthy)
  show ?thesis using a b c d e board_indices_eq lines_def by blast
qed

theorem outcome_characterised_witness:
  "nine_cells \<lparr>elems = [Mark X_mark, Mark X_mark, Mark X_mark, Null, Mark O_mark, Mark O_mark,
                        Null, Null, Null], props = []\<rparr> \<and>
   outcome_of \<lparr>elems = [Mark X_mark, Mark X_mark, Mark X_mark, Null, Mark O_mark, Mark O_mark,
                        Null, Null, Null], props = []\<rparr> = Win X_mark"
proof -
  let ?sq = "\<lparr>elems = [Mark X_mark, Mark X_mark, Mark X_mark, Null, Mark O_mark, Mark O_mark,
                        Null, Null, Null], props = []\<rparr>"
  have n: "nine_cells ?sq" by (simp add: nine_cells_def)
  have x: "list_ex (line_holds ?sq X_mark) lines"
    by (simp add: lines_def sq_get_def is_index_def)
  have o: "\<not> list_ex (line_holds ?sq m') lines" if "m' \<noteq> X_mark" for m'
  proof -
    from that have "m' = O_mark" by (cases m') simp_all
    then show ?thesis by (simp add: lines_def sq_get_def is_index_def)
  qed
  from outcome_characterised[OF n] have
    "\<forall>m. list_ex (line_holds ?sq m) lines \<and> (\<forall>m'. m' \<noteq> m \<longrightarrow> \<not> list_ex (line_holds ?sq m') lines)
              \<longrightarrow> outcome_of ?sq = Win m" by blast
  with x o have "outcome_of ?sq = Win X_mark" by blast
  with n show ?thesis by blast
qed

section \<open>Terminal states\<close>

theorem terminal_draw_counterexample:
  "outcome_of \<lparr>elems = [Mark X_mark, Mark O_mark, Mark X_mark, Mark X_mark, Mark O_mark,
                         Mark O_mark, Mark O_mark, Mark X_mark, Mark X_mark], props = []\<rparr> = Draw \<and>
   handleClick
     \<lparr>squares = \<lparr>elems = [Mark X_mark, Mark O_mark, Mark X_mark, Mark X_mark, Mark O_mark,
                         Mark O_mark, Mark O_mark, Mark X_mark, Mark X_mark], props = []\<rparr>,
      isXNext = False, theme = ''light'', themeDialogOpen = False\<rparr> 9 =
     \<lparr>squares = \<lparr>elems = [Mark X_mark, Mark O_mark, Mark X_mark, Mark X_mark, Mark O_mark,
                         Mark O_mark, Mark O_mark, Mark X_mark, Mark X_mark, Mark O_mark],
                  props = []\<rparr>,
      isXNext = True, theme = ''light'', themeDialogOpen = False\<rparr> \<and>
   run (Game_init ''light'')
     [Click 0, Click 1, Click 2, Click 4, Click 3, Click 5, Click 7, Click 6, Click 8] =
     \<lparr>squares = \<lparr>elems = [Mark X_mark, Mark O_mark, Mark X_mark, Mark X_mark, Mark O_mark,
                         Mark O_mark, Mark O_mark, Mark X_mark, Mark X_mark], props = []\<rparr>,
      isXNext = False, theme = ''light'', themeDialogOpen = False\<rparr>"
  by (simp add: drawn_game) (simp add: outcome_of_def every_Boolean_def click_eval)

text \<open>
  Claim C4, as the code has it. Once a win line is complete, a click at any index leaves
  the state as it is. On a drawn board of nine cells, a click at any index from 0 to 8
  leaves the state as it is; \<open>restartGame\<close> yields a board in progress again. The
  counterexample is the drawn board of the specification's own scenario: the click at
  index 9 is accepted there, appends a tenth element and flips the turn.
\<close>

theorem terminal_states:
  "(outcome_of (squares g) = Win m \<longrightarrow> handleClick g i = g) \<and>
   (nine_cells (squares g) \<and> outcome_of (squares g) = Draw \<and> i \<in> set board_indices \<longrightarrow>
      handleClick g i = g) \<and>
   outcome_of (squares (restartGame g)) = InProgress"
proof -
  have a: "outcome_of (squares g) = Win m \<longrightarrow> handleClick g i = g"
    by (simp add: outcome_Win_iff handleClick_def)
  have b: "nine_cells (squares g) \<and> outcome_of (squares g) = Draw \<and> i \<in> set board_indices \<longrightarrow>
      handleClick g i = g"
    using handleClick_draw[of g i] by (simp add: board_indices_iff)
  have c: "outcome_of (squares (restartGame g)) = InProgress"
    by (simp add: restartGame_def Array_fill_9 outcome_of_def every_Boolean_def
        calculateWinner_def lines_def sq_get_def is_index_def)
  from a b c show ?thesis by blast
qed

theorem terminal_states_witness:
  "outcome_of (squares (run (Game_init ''light'') [Click 0, Click 4, Click 1, Click 5, Click 2]))
     = Win X_mark \<and>
   handleClick (run (Game_init ''light'') [Click 0, Click 4, Click 1, Click 5, Click 2]) 3 =
     run (Game_init ''light'') [Click 0, Click 4, Click 1, Click 5, Click 2] \<and>
   outcome_of (squares (run (Game_init ''light'')
     [Click 0, Click 1, Click 2, Click 4, Click 3, Click 5, Click 7, Click 6, Click 8])) = Draw \<and>
   handleClick (run (Game_init ''light'')
     [Click 0, Click 1, Click 2, Click 4, Click 3, Click 5, Click 7, Click 6, Click 8]) 4 =
     run (Game_init ''light'')
       [Click 0, Click 1, Click 2, Click 4, Click 3, Click 5, Click 7, Click 6, Click 8]"
proof -
  let ?g = "run (Game_init ''light'') [Click 0, Click 4, Click 1, Click 5, Click 2]"
  let ?d = "run (Game_init ''light'')
     [Click 0, Click 1, Click 2, Click 4, Click 3, Click 5, Click 7, Click 6, Click 8]"
  have w: "outcome_of (squares ?g) = Win X_mark"
    unfolding win_game
    by (simp add: outcome_of_def calculateWinner_def lines_def sq_get_def is_index_def)
  have d: "outcome_of (squares ?d) = Draw"
    unfolding drawn_game
    by (simp add: outcome_of_def every_Boolean_def calculateWinner_def lines_def sq_get_def
        is_index_def)
  have n: "nine_cells (squares ?d)"
    unfolding drawn_game by (simp add: nine_cells_def)
  have i: "(4::int) \<in> set board_indices" by (simp add: board_indices_eq)
  from terminal_states[of ?g X_mark 3] w
  have a: "handleClick ?g 3 = ?g" by blast
  from terminal_states[of ?d X_mark 4] d n i
  have b: "handleClick ?d 4 = ?d" by blast
  from w a d b show ?thesis by blast
qed

section \<open>Invariants of play\<close>

text \<open>
  Claim C5. In every state reached from the initial state by any sequence of events, and
  so by any sequence of legal moves, the two marks do not both have a completed win line.
  A move is accepted only while no line is complete, and it writes only the mark of the
  mover, so it cannot complete a line of the other mark.
\<close>

theorem at_most_one_winner:
  "\<not> (has_line (squares (run (Game_init t) es)) X_mark \<and>
      has_line (squares (run (Game_init t) es)) O_mark)"
  using run_one_winner[OF init_one_winner, of t es] by (simp add: one_winner_def)

theorem at_most_one_winner_witness:
  "has_line (squares (run (Game_init ''light'') [Click 0, Click 4, Click 1, Click 5, Click 2])) X_mark \<and>
   \<not> has_line (squares (run (Game_init ''light'') [Click 0, Click 4, Click 1, Click 5, Click 2])) O_mark"
proof -
  have "has_line (squares (run (Game_init ''light'') [Click 0, Click 4, Click 1, Click 5, Click 2])) X_mark"
    unfolding win_game by (simp add: has_line_def lines_def sq_get_def is_index_def)
  with at_most_one_winner[of "''light''" "[Click 0, Click 4, Click 1, Click 5, Click 2]"]
  show ?thesis by blast
qed

text \<open>
  Claim C6. In every state reached from the initial state by the events the page can
  raise (clicks on the nine squares, accepted or rejected, restarts, and the theme
  dialog), the number of cells holding the X mark minus the number holding the O mark is
  0 or 1: it is 0 when X moves next and 1 when O moves next, on a board that still has
  nine cells. Each further such event keeps this.
\<close>

theorem mark_count_invariant:
  assumes "list_all ui_event es"
  shows "balanced (run (Game_init t) es) \<and>
         (int (count_mark (squares (run (Game_init t) es)) X_mark) -
          int (count_mark (squares (run (Game_init t) es)) O_mark) = 0 \<or>
          int (count_mark (squares (run (Game_init t) es)) X_mark) -
          int (count_mark (squares (run (Game_init t) es)) O_mark) = 1) \<and>
         (\<forall>e. ui_event e \<longrightarrow> balanced (step (run (Game_init t) es) e))"
proof -
  have b: "balanced (run (Game_init t) es)"
    using init_balanced assms by (rule run_balanced)
  then have "int (count_mark (squares (run (Game_init t) es)) X_mark) -
          int (count_mark (squares (run (Game_init t) es)) O_mark) = 0 \<or>
          int (count_mark (squares (run (Game_init t) es)) X_mark) -
          int (count_mark (squares (run (Game_init t) es)) O_mark) = 1"
    unfolding balanced_def by (cases "isXNext (run (Game_init t) es)") simp_all
  with b step_balanced show ?thesis by blast
qed

theorem mark_count_invariant_witness:
  "list_all ui_event [Click 0, Click 4, Click 1, Click 5, Click 2] \<and>
   count_mark (squares (run (Game_init ''light'') [Click 0, Click 4, Click 1, Click 5, Click 2])) X_mark = 3 \<and>
   count_mark (squares (run (Game_init ''light'') [Click 0, Click 4, Click 1, Click 5, Click 2])) O_mark = 2 \<and>
   balanced (run (Game_init ''light'') [Click 0, Click 4, Click 1, Click 5, Click 2])"
proof -
  have u: "list_all ui_event [Click 0, Click 4, Click 1, Click 5, Click 2]"
    by (simp add: board_indices_eq)
  have c: "count_mark (squares (run (Game_init ''light'') [Click 0, Click 4, Click 1, Click 5, Click 2])) X_mark = 3"
    "count_mark (squares (run (Game_init ''light'') [Click 0, Click 4, Click 1, Click 5, Click 2])) O_mark = 2"
    unfolding win_game by (simp_all add: count_mark_def)
  from mark_count_invariant[OF u, of "''light''"] u c show ?thesis by blast
qed

section \<open>Restart and the initial theme\<close>

text \<open>
  Claim C7. Whatever the state before, \<open>restartGame\<close> sets the board to nine \<open>null\<close>
  cells and the turn to X, and changes nothing else; board and turn are then those of the
  first render, where X also moves first.
\<close>

theorem restart_returns_initial:
  "restartGame g = g\<lparr>squares := \<lparr>elems = [Null, Null, Null, Null, Null, Null, Null, Null, Null],
                                  props = []\<rparr>, isXNext := True\<rparr> \<and>
   squares (restartGame g) = squares (Game_init t) \<and>
   isXNext (restartGame g) = isXNext (Game_init t) \<and>
   turn (restartGame g) = X_mark \<and>
   turn (Game_init t) = X_mark \<and>
   nine_cells (squares (restartGame g)) \<and>
   count_mark (squares (restartGame g)) X_mark = 0 \<and>
   count_mark (squares (restartGame g)) O_mark = 0 \<and>
   restartGame (Game_init t) = Game_init t"
  by (simp add: restartGame_def Game_init_def Array_fill_9 turn_def nine_cells_def count_mark_def)

theorem restart_returns_initial_witness:
  "restartGame \<lparr>squares = \<lparr>elems = [Mark X_mark, Mark O_mark, Mark X_mark, Mark X_mark,
                   Mark O_mark, Mark O_mark, Mark O_mark, Mark X_mark, Mark X_mark], props = []\<rparr>,
                isXNext = False, theme = ''ocean'', themeDialogOpen = False\<rparr> =
   Game_init ''ocean''"
proof -
  let ?g = "\<lparr>squares = \<lparr>elems = [Mark X_mark, Mark O_mark, Mark X_mark, Mark X_mark,
                   Mark O_mark, Mark O_mark, Mark O_mark, Mark X_mark, Mark X_mark], props = []\<rparr>,
                isXNext = False, theme = ''ocean'', themeDialogOpen = False\<rparr>"
  from restart_returns_initial[of ?g "''ocean''"]
  have "restartGame ?g = ?g\<lparr>squares := \<lparr>elems = [Null, Null, Null, Null, Null, Null, Null, Null, Null],
                                  props = []\<rparr>, isXNext := True\<rparr>" by blast
  then show ?thesis by (simp add: Game_init_def Array_fill_9)
qed

text \<open>
  Claim C8. When storage returns a value, \<open>getInitialTheme\<close> returns the stored value
  if it is one of the six names of \<open>THEMES\<close>; if nothing is stored or the stored value
  is not one of them, it returns dark when the media query reports a match and light in
  every other case (no \<open>matchMedia\<close>, a query that throws, or no match). The result is
  always one of the six names.
\<close>

theorem initial_theme:
  "(stored \<in> set THEMES \<longrightarrow> getInitialTheme (Item (Some stored)) mm = Inr stored) \<and>
   (stored \<notin> set THEMES \<longrightarrow>
      getInitialTheme (Item (Some stored)) mm =
        Inr (if mm = MediaMatches True then ''dark'' else ''light'')) \<and>
   getInitialTheme (Item None) mm = Inr (if mm = MediaMatches True then ''dark'' else ''light'') \<and>
   (\<forall>st. \<exists>t. getInitialTheme (Item st) mm = Inr t \<and> t \<in> set THEMES) \<and>
   THEMES = [''light'', ''dark'', ''ocean'', ''forest'', ''sunset'', ''lavender'']"
proof -
  have sys: "system_theme mm = (if mm = MediaMatches True then ''dark'' else ''light'')"
    by (simp add: system_theme_def split: media.splits bool.splits)
  have ne: "stored \<in> set THEMES \<Longrightarrow> stored \<noteq> []"
    by (auto simp: THEMES_def)
  have a: "stored \<in> set THEMES \<longrightarrow> getInitialTheme (Item (Some stored)) mm = Inr stored"
    using ne by (simp add: getInitialTheme_def)
  have b: "stored \<notin> set THEMES \<longrightarrow>
      getInitialTheme (Item (Some stored)) mm =
        Inr (if mm = MediaMatches True then ''dark'' else ''light'')"
    by (simp add: getInitialTheme_def sys)
  have c: "getInitialTheme (Item None) mm = Inr (if mm = MediaMatches True then ''dark'' else ''light'')"
    by (simp add: getInitialTheme_def sys)
  have sysin: "system_theme mm \<in> set THEMES"
    unfolding sys by (simp add: THEMES_def)
  have d: "\<exists>t. getInitialTheme (Item st) mm = Inr t \<and> t \<in> set THEMES" for st
    using sysin by (cases st) (auto simp: getInitialTheme_def)
  from a b c d THEMES_def show ?thesis by blast
qed

theorem initial_theme_witness:
  "getInitialTheme (Item (Some ''ocean'')) (MediaMatches True) = Inr ''ocean'' \<and>
   getInitialTheme (Item (Some ''solarized'')) (MediaMatches True) = Inr ''dark'' \<and>
   getInitialTheme (Item (Some ''solarized'')) NoMatchMedia = Inr ''light'' \<and>
   getInitialTheme (Item None) (MediaMatches False) = Inr ''light''"
proof -
  have i: "''ocean'' \<in> set THEMES" by (simp add: THEMES_def)
  have n: "''solarized'' \<notin> set THEMES" by (simp add: THEMES_def)
  from initial_theme[of "''ocean''" "MediaMatches True"] i
  have a: "getInitialTheme (Item (Some ''ocean'')) (MediaMatches True) = Inr ''ocean''" by blast
  from initial_theme[of "''solarized''" "MediaMatches True"] n
  have b: "getInitialTheme (Item (Some ''solarized'')) (MediaMatches True) = Inr ''dark''" by simp
  from initial_theme[of "''solarized''" NoMatchMedia] n
  have c: "getInitialTheme (Item (Some ''solarized'')) NoMatchMedia = Inr ''light''" by simp
  from initial_theme[of "''x''" "MediaMatches False"]
  have d: "getInitialTheme (Item None) (MediaMatches False) = Inr ''light''" by simp
  from a b c d show ?thesis by blast
qed

section \<open>The order of the lines and what the outcome depends on\<close>

text \<open>
  Claim C9. On every board, of nine cells or not, and reachable or not, \<open>calculateWinner\<close>
  returns the content of the first cell of the first completed line in the order of
  \<open>lines\<close> (rows, columns, diagonals, as listed in the last conjunct), which is the
  mark that line holds; it returns \<open>null\<close> exactly when no line is complete, and never
  anything but \<open>null\<close> or a mark.
\<close>

theorem calculateWinner_first_line:
  "(\<forall>k<length lines. complete sq (lines ! k) \<and> (\<forall>j<k. \<not> complete sq (lines ! j)) \<longrightarrow>
      calculateWinner sq = sq_get sq (fst (lines ! k)) \<and>
      (\<exists>m. calculateWinner sq = Mark m \<and> line_holds sq m (lines ! k))) \<and>
   (calculateWinner sq = Null \<longleftrightarrow> \<not> list_ex (complete sq) lines) \<and>
   (calculateWinner sq = Null \<or> (\<exists>m. calculateWinner sq = Mark m)) \<and>
   lines = [(0, 1, 2), (3, 4, 5), (6, 7, 8), (0, 3, 6), (1, 4, 7), (2, 5, 8),
            (0, 4, 8), (2, 4, 6)]"
proof -
  have a: "calculateWinner sq = sq_get sq (fst (lines ! k)) \<and>
      (\<exists>m. calculateWinner sq = Mark m \<and> line_holds sq m (lines ! k))"
    if k: "k < length lines" and c: "complete sq (lines ! k)"
      and f: "\<forall>j<k. \<not> complete sq (lines ! j)" for k
  proof -
    have w: "calculateWinner sq = sq_get sq (fst (lines ! k))"
      unfolding calculateWinner_def using k c f by (rule scan_first)
    obtain a b c' where l: "lines ! k = (a, b, c')" by (cases "lines ! k")
    from c have "\<exists>m. sq_get sq a = Mark m \<and> line_holds sq m (a, b, c')"
      unfolding l complete_def by auto
    with w show ?thesis unfolding l by simp
  qed
  have b: "calculateWinner sq = Null \<longleftrightarrow> \<not> list_ex (complete sq) lines"
    unfolding calculateWinner_def by (rule scan_Null_iff)
  have c: "calculateWinner sq = Null \<or> (\<exists>m. calculateWinner sq = Mark m)"
    unfolding calculateWinner_def by (rule scan_cases)
  show ?thesis using a b c lines_def by blast
qed

theorem calculateWinner_first_line_witness:
  "calculateWinner \<lparr>elems = [Mark X_mark, Mark O_mark, Null, Mark X_mark, Mark O_mark, Null,
                             Mark X_mark, Mark O_mark, Null], props = []\<rparr> = Mark X_mark \<and>
   complete \<lparr>elems = [Mark X_mark, Mark O_mark, Null, Mark X_mark, Mark O_mark, Null,
                      Mark X_mark, Mark O_mark, Null], props = []\<rparr> (1, 4, 7)"
proof -
  let ?sq = "\<lparr>elems = [Mark X_mark, Mark O_mark, Null, Mark X_mark, Mark O_mark, Null,
                             Mark X_mark, Mark O_mark, Null], props = []\<rparr>"
  have k: "(3::nat) < length lines" by (simp add: lines_def)
  have l3: "lines ! 3 = (0, 3, 6)" by (simp add: lines_def)
  have c: "complete ?sq (lines ! 3)"
    unfolding l3 by (simp add: complete_def sq_get_def is_index_def)
  have f: "\<forall>j<3. \<not> complete ?sq (lines ! j)"
  proof (intro allI impI)
    fix j :: nat assume "j < 3"
    then have "j = 0 \<or> j = 1 \<or> j = 2" by arith
    then show "\<not> complete ?sq (lines ! j)"
      by (auto simp: lines_def complete_def sq_get_def is_index_def)
  qed
  have o: "complete ?sq (1, 4, 7)" by (simp add: complete_def sq_get_def is_index_def)
  from calculateWinner_first_line[of ?sq] k c f
  have "calculateWinner ?sq = sq_get ?sq (fst (lines ! 3))" by blast
  then have "calculateWinner ?sq = Mark X_mark"
    unfolding l3 by (simp add: sq_get_def is_index_def)
  with o show ?thesis by blast
qed

text \<open>
  Claim C10. Two states with equal \<open>squares\<close> have the same \<open>winner\<close>, the same
  \<open>isDraw\<close> and the same outcome; in particular changing the turn flag and the theme
  of a state changes none of them.
\<close>

theorem outcome_depends_on_squares:
  assumes "squares g = squares g'"
  shows "winner g = winner g' \<and> isDraw g = isDraw g' \<and>
         outcome_of (squares g) = outcome_of (squares g') \<and>
         winner (g\<lparr>isXNext := b, theme := t\<rparr>) = winner g \<and>
         isDraw (g\<lparr>isXNext := b, theme := t\<rparr>) = isDraw g"
  using assms by (simp add: winner_def isDraw_def)

theorem outcome_depends_on_squares_witness:
  "winner \<lparr>squares = \<lparr>elems = [Mark X_mark, Mark X_mark, Mark X_mark, Null, Mark O_mark,
                                Mark O_mark, Null, Null, Null], props = []\<rparr>,
            isXNext = False, theme = ''light'', themeDialogOpen = False\<rparr> =
   winner \<lparr>squares = \<lparr>elems = [Mark X_mark, Mark X_mark, Mark X_mark, Null, Mark O_mark,
                                Mark O_mark, Null, Null, Null], props = []\<rparr>,
            isXNext = True, theme = ''forest'', themeDialogOpen = True\<rparr> \<and>
   isDraw \<lparr>squares = \<lparr>elems = [Mark X_mark, Mark X_mark, Mark X_mark, Null, Mark O_mark,
                                Mark O_mark, Null, Null, Null], props = []\<rparr>,
            isXNext = False, theme = ''light'', themeDialogOpen = False\<rparr> =
   isDraw \<lparr>squares = \<lparr>elems = [Mark X_mark, Mark X_mark, Mark X_mark, Null, Mark O_mark,
                                Mark O_mark, Null, Null, Null], props = []\<rparr>,
            isXNext = True, theme = ''forest'', themeDialogOpen = True\<rparr>"
proof -
  let ?sq = "\<lparr>elems = [Mark X_mark, Mark X_mark, Mark X_mark, Null, Mark O_mark,
                                Mark O_mark, Null, Null, Null], props = []\<rparr>"
  let ?g = "\<lparr>squares = ?sq, isXNext = False, theme = ''light'', themeDialogOpen = False\<rparr>"
  let ?g' = "\<lparr>squares = ?sq, isXNext = True, theme = ''forest'', themeDialogOpen = True\<rparr>"
  have "squares ?g = squares ?g'" by simp
  from outcome_depends_on_squares[OF this] show ?thesis by blast
qed

end
